theory Spec2Isabelle
  imports Main
begin

section \<open>JavaScript values\<close>

text \<open>
  The values the card handles at run time. \<open>JUndefined\<close> matters: the field \<open>card\<close> is
  declared without an initialiser, and \<open>a && b\<close> returns \<open>a\<close> itself when \<open>a\<close> is falsy.
  These are the plain data a broadcast carries; an object is its list of own
  properties. What an object or an array inherits from its prototype is not data: it
  is named below, and reading it gives a \<open>Builtin\<close>.
\<close>

datatype jsval =
    JUndefined
  | JNull
  | JBool bool
  | JNum int
  | JStr string
  | JArr "jsval list"
  | JObj "(string \<times> jsval) list"

fun truthy :: "jsval \<Rightarrow> bool" where
  "truthy JUndefined = False"
| "truthy JNull = False"
| "truthy (JBool b) = b"
| "truthy (JNum n) = (n \<noteq> 0)"
| "truthy (JStr s) = (s \<noteq> [])"
| "truthy (JArr xs) = True"
| "truthy (JObj kvs) = True"

text \<open>\<open>typeof v === "object"\<close>: true of null, of arrays and of objects.\<close>

fun typeof_object :: "jsval \<Rightarrow> bool" where
  "typeof_object JNull = True"
| "typeof_object (JArr xs) = True"
| "typeof_object (JObj kvs) = True"
| "typeof_object v = False"

text \<open>The decimal name of an array index.\<close>

fun decimal :: "nat \<Rightarrow> string" where
  "decimal n = (if n < 10 then [''0123456789'' ! n]
                else decimal (n div 10) @ [''0123456789'' ! (n mod 10)])"

text \<open>
  The own properties of a value that has some: an object's entries, an array's indices
  and its \<open>length\<close>. \<open>None\<close> for every other value: there the operator \<open>in\<close> throws a
  TypeError.
\<close>

fun own_props :: "jsval \<Rightarrow> (string \<times> jsval) list option" where
  "own_props (JObj kvs) = Some kvs"
| "own_props (JArr xs) =
     Some (zip (map decimal [0..<length xs]) xs @ [(''length'', JNum (int (length xs)))])"
| "own_props v = None"

text \<open>
  The string-keyed members every object inherits from \<open>Object.prototype\<close>, and those an
  array inherits from \<open>Array.prototype\<close> before them (ECMAScript 2023, unmodified
  prototypes).
\<close>

definition object_members :: "string list" where
  "object_members =
     [''constructor'', ''__defineGetter__'', ''__defineSetter__'', ''hasOwnProperty'',
      ''__lookupGetter__'', ''__lookupSetter__'', ''isPrototypeOf'', ''propertyIsEnumerable'',
      ''toString'', ''valueOf'', ''__proto__'', ''toLocaleString'']"

definition array_members :: "string list" where
  "array_members =
     [''at'', ''concat'', ''constructor'', ''copyWithin'', ''entries'', ''every'', ''fill'',
      ''filter'', ''find'', ''findIndex'', ''findLast'', ''findLastIndex'', ''flat'', ''flatMap'',
      ''forEach'', ''includes'', ''indexOf'', ''join'', ''keys'', ''lastIndexOf'', ''length'',
      ''map'', ''pop'', ''push'', ''reduce'', ''reduceRight'', ''reverse'', ''shift'', ''slice'',
      ''some'', ''sort'', ''splice'', ''toLocaleString'', ''toReversed'', ''toSorted'',
      ''toSpliced'', ''toString'', ''unshift'', ''values'', ''with'']"

fun inherited_names :: "jsval \<Rightarrow> string list" where
  "inherited_names (JObj kvs) = object_members"
| "inherited_names (JArr xs) = array_members @ object_members"
| "inherited_names v = []"

text \<open>
  \<open>k in v\<close>: the own properties and then the prototype chain; \<open>None\<close> is the
  TypeError.
\<close>

definition js_in :: "string \<Rightarrow> jsval \<Rightarrow> bool option" where
  "js_in k v =
     (case own_props v of
        None \<Rightarrow> None
      | Some ps \<Rightarrow> Some (k \<in> set (map fst ps) \<or> k \<in> set (inherited_names v)))"

text \<open>
  What a property read gives: data, or a member inherited from a prototype (a built-in
  function, or under \<open>__proto__\<close> the prototype itself), known by its name. No such
  member is a string, and none has a property \<open>ids\<close>.
\<close>

datatype member = Data jsval | Builtin string

text \<open>
  \<open>v[k]\<close> on a value that passed \<open>in\<close>: an own property first, then an inherited member;
  a missing property reads as undefined.
\<close>

definition js_get :: "jsval \<Rightarrow> string \<Rightarrow> member" where
  "js_get v k =
     (case own_props v of
        None \<Rightarrow> Data JUndefined
      | Some ps \<Rightarrow>
          (case map_of ps k of
             Some x \<Rightarrow> Data x
           | None \<Rightarrow> if k \<in> set (inherited_names v) then Builtin k else Data JUndefined))"

section \<open>Configuration, widgets and the card's state\<close>

text \<open>
  \<open>LovelaceCardConfig\<close>, as far as the card looks at it: the result of
  \<open>JSON.stringify\<close> (\<open>None\<close> when it throws), the field \<open>type\<close> (\<open>None\<close> when it is
  null or undefined) and the result of \<open>String(cfg)\<close>.
\<close>

record widget_spec =
  JSON_stringify :: "string option"
  type_field :: "string option"
  String_of :: string

text \<open>\<open>LocalConditionalCardConfig\<close>; a missing optional field is \<open>None\<close>.\<close>

record config =
  id_cfg :: string
  default_cfg :: string
  card_cfg :: "widget_spec option"
  persist_state :: "bool option"
  hide_in_preview :: "bool option"

text \<open>What a widget's own \<open>getCardSize\<close> does, when the widget has one.\<close>

datatype delegate = Absent | Returns int | Throws

text \<open>
  A widget element. Elements are objects with identity: \<open>elemId\<close> is the address the
  model gives each element it creates.
\<close>

record element =
  elemId :: nat
  localName :: string
  el_getCardSize :: delegate

text \<open>
  The host's helpers (the result of \<open>window.loadCardHelpers()\<close>): \<open>createCardElement\<close>,
  when present, decides the tag name and the size capability of the element it creates.
\<close>

record helpers =
  createCardElement :: "(widget_spec \<Rightarrow> string \<times> delegate) option"

datatype loader = NoLoader | Rejects | Resolves helpers

text \<open>An event on the broadcast channel is read only through its \<open>detail\<close>.\<close>

datatype event = Event jsval

text \<open>
  Deferred work: one constructor per callback the card hands to \<open>queueMicrotask\<close>;
  \<open>CreateCardResume\<close> is the continuation of the first one after its first \<open>await\<close>.
\<close>

datatype task =
    CreateCardStart widget_spec
  | CreateCardResume widget_spec
  | RestoreState config
  | PersistState
  | Rebuild widget_spec

datatype error = MissingConfiguration | NoCardConfigured | TypeError

text \<open>
  The instance's fields (\<open>show\<close> is \<open>show_flag\<close>, \<open>card\<close> is \<open>card_elem\<close>), followed by
  the part of the browser it acts on: the microtask queue, the number of frame callbacks
  requested and not yet run, the key-value store with the calls made to \<open>setItem\<close>, the
  events the card dispatched, the helper loader, and the next free element address.
\<close>

record card_state =
  config :: "config option"
  show_flag :: bool
  visible :: jsval
  preview :: bool
  cardHelpers :: "helpers option"
  cardCache :: "string \<Rightarrow> element option"
  card_elem :: "element option"
  pendingEvent :: bool
  lastEvent :: "event option"
  microtasks :: "task list"
  animationFrames :: nat
  localStorage :: "string \<Rightarrow> string option"
  getItemThrows :: bool
  setItemThrows :: bool
  setItemCalls :: "(string \<times> string) list"
  dispatched :: "string list"
  loadCardHelpers :: loader
  nextElem :: nat

text \<open>The state the constructor and the field initialisers leave, in a given browser.\<close>

definition new_card ::
  "loader \<Rightarrow> (string \<Rightarrow> string option) \<Rightarrow> bool \<Rightarrow> bool \<Rightarrow> card_state" where
  "new_card ld store gthrows sthrows =
     \<lparr> config = None, show_flag = True, visible = JBool False, preview = False,
       cardHelpers = None, cardCache = Map.empty, card_elem = None,
       pendingEvent = False, lastEvent = None,
       microtasks = [], animationFrames = 0,
       localStorage = store, getItemThrows = gthrows, setItemThrows = sthrows,
       setItemCalls = [], dispatched = [],
       loadCardHelpers = ld, nextElem = 0 \<rparr>"

section \<open>Visibility\<close>

text \<open>
  \<open>_computeVisibility\<close>: \<open>(preview && !(config?.hide_in_preview ?? false)) || show ||
  (card && (card.localName === "hui-error-card" || ...))\<close>. The last operand is
  \<open>undefined\<close> when no widget exists yet, and then so is the result.
\<close>

definition computeVisibility :: "card_state \<Rightarrow> jsval" where
  "computeVisibility s =
     (if preview s \<and>
         \<not> (case config s of
              None \<Rightarrow> False
            | Some c \<Rightarrow> (case hide_in_preview c of None \<Rightarrow> False | Some b \<Rightarrow> b))
      then JBool True
      else if show_flag s then JBool True
      else (case card_elem s of
              None \<Rightarrow> JUndefined
            | Some el \<Rightarrow>
                JBool (localName el = ''hui-error-card'' \<or> localName el = ''hui-error-card'')))"

text \<open>The getter \<open>hidden\<close> and the class \<open>render\<close> gives the wrapping element.\<close>

definition hidden :: "card_state \<Rightarrow> bool" where
  "hidden s = (\<not> truthy (visible s))"

definition render_class :: "card_state \<Rightarrow> string" where
  "render_class s = (if truthy (visible s) then [] else ''hidden'')"

text \<open>The storage key \<open>_getStorageKey\<close> builds from a configuration.\<close>

definition getStorageKey :: "config \<Rightarrow> string" where
  "getStorageKey c = ''local_conditional_card_state_'' @ id_cfg c"

text \<open>The text of a boolean in a template literal.\<close>

definition bool_text :: "bool \<Rightarrow> string" where
  "bool_text b = (if b then ''true'' else ''false'')"

text \<open>
  \<open>_computeAndSetVisible\<close>: store the recomputed value; when it is not identical
  (\<open>!==\<close>) to the previous one, queue the write of \<open>show\<close> if the current configuration
  asks for persistence, and dispatch the notification.
\<close>

definition computeAndSetVisible :: "card_state \<Rightarrow> card_state" where
  "computeAndSetVisible s =
     (let prev = visible s;
          s1 = s\<lparr>visible := computeVisibility s\<rparr>
      in if prev \<noteq> visible s1
         then (let s2 = (if (case config s1 of None \<Rightarrow> False
                             | Some c \<Rightarrow> persist_state c = Some True)
                         then s1\<lparr>microtasks := microtasks s1 @ [PersistState]\<rparr>
                         else s1)
               in s2\<lparr>dispatched := dispatched s2 @ [''card-visibility-changed'']\<rparr>)
         else s1)"

text \<open>\<open>updated\<close>, called by the rendering library with the names of the changed properties.\<close>

definition updated :: "string list \<Rightarrow> card_state \<Rightarrow> card_state" where
  "updated changed s =
     (if ''show'' \<in> set changed \<or> ''preview'' \<in> set changed \<or> ''config'' \<in> set changed
      then computeAndSetVisible s else s)"

section \<open>Configuration\<close>

text \<open>
  \<open>setConfig\<close>. A throw rejects the returned promise and leaves the fields as they are
  at that point, so the result is the outcome together with the state.
\<close>

definition setConfig :: "config option \<Rightarrow> card_state \<Rightarrow> (error + unit) \<times> card_state" where
  "setConfig cfg s =
     (case cfg of
        None \<Rightarrow> (Inl MissingConfiguration, s)
      | Some c \<Rightarrow>
          (let s1 = s\<lparr>config := Some c, show_flag := (default_cfg c = ''show'')\<rparr>
           in case card_cfg c of
                None \<Rightarrow> (Inl NoCardConfigured, s1)
              | Some spec \<Rightarrow>
                  (Inr (),
                   s1\<lparr>microtasks := microtasks s1 @ [CreateCardStart spec] @
                        (if persist_state c = Some True then [RestoreState c] else [])\<rparr>)))"

text \<open>The callback that reads the persisted value; every exception in it is swallowed.\<close>

definition restoreState :: "config \<Rightarrow> card_state \<Rightarrow> card_state" where
  "restoreState c s =
     (if getItemThrows s then s
      else (case localStorage s (getStorageKey c) of
              None \<Rightarrow> s
            | Some lastSaved \<Rightarrow>
                (let parsed = (lastSaved = ''true'')
                 in if parsed \<noteq> show_flag s
                    then computeAndSetVisible (s\<lparr>show_flag := parsed\<rparr>)
                    else s)))"

text \<open>
  The callback that writes the persisted value: the key comes from the configuration
  and the text from \<open>show\<close>, both as they are when the callback runs.
\<close>

definition persistState :: "card_state \<Rightarrow> card_state" where
  "persistState s =
     (case config s of
        None \<Rightarrow> s
      | Some c \<Rightarrow>
          (let s1 = s\<lparr>setItemCalls :=
                       setItemCalls s @ [(getStorageKey c, bool_text (show_flag s))]\<rparr>
           in if setItemThrows s then s1
              else s1\<lparr>localStorage :=
                       (localStorage s)(getStorageKey c \<mapsto> bool_text (show_flag s))\<rparr>))"

section \<open>Widget creation and the cache\<close>

definition ensureHelpers :: "card_state \<Rightarrow> card_state" where
  "ensureHelpers s =
     (case cardHelpers s of
        Some h \<Rightarrow> s
      | None \<Rightarrow>
          s\<lparr>cardHelpers :=
               (case loadCardHelpers s of Resolves h \<Rightarrow> Some h | Rejects \<Rightarrow> None | NoLoader \<Rightarrow> None)\<rparr>)"

text \<open>\<open>_cardConfigKey\<close>.\<close>

definition cardConfigKey :: "widget_spec \<Rightarrow> string" where
  "cardConfigKey cfg =
     (case JSON_stringify cfg of
        Some k \<Rightarrow> k
      | None \<Rightarrow> (case type_field cfg of Some t \<Rightarrow> t | None \<Rightarrow> String_of cfg))"

text \<open>
  \<open>_createCard\<close>. After the helpers are awaited, the cache test, the creation and the
  cache update run without a suspension point between them. Without the host's
  \<open>createCardElement\<close> the code creates a \<open>div\<close> and assigns its \<open>localName\<close>, which
  has a getter only: in a class body that assignment throws a TypeError, the promise is
  rejected and nothing is cached.
\<close>

definition createCard_priv ::
  "widget_spec \<Rightarrow> card_state \<Rightarrow> (error + element) \<times> card_state" where
  "createCard_priv cardConfig s =
     (let s1 = ensureHelpers s;
          key = cardConfigKey cardConfig
      in case cardCache s1 key of
           Some el \<Rightarrow> (Inr el, s1)
         | None \<Rightarrow>
             (case Option.bind (cardHelpers s1) createCardElement of
                None \<Rightarrow> (Inl TypeError, s1)
              | Some mk \<Rightarrow>
                  (let el = \<lparr>elemId = nextElem s1, localName = fst (mk cardConfig),
                              el_getCardSize = snd (mk cardConfig)\<rparr>
                   in (Inr el, s1\<lparr>cardCache := (cardCache s1)(key \<mapsto> el),
                                  nextElem := Suc (nextElem s1)\<rparr>))))"

text \<open>
  The public \<open>createCard\<close>: when \<open>_createCard\<close> is rejected, so is this, before the
  assignment to \<open>card\<close>.
\<close>

definition createCard :: "widget_spec \<Rightarrow> card_state \<Rightarrow> (error + unit) \<times> card_state" where
  "createCard cardConfig s =
     (case createCard_priv cardConfig s of
        (Inl err, s1) \<Rightarrow> (Inl err, s1)
      | (Inr el, s1) \<Rightarrow> (Inr (), computeAndSetVisible (s1\<lparr>card_elem := Some el\<rparr>)))"

text \<open>
  The callback the \<open>ll-rebuild\<close> listener of an element created for a spec queues; a
  rejection of \<open>_createCard\<close> ends it.
\<close>

definition rebuild :: "widget_spec \<Rightarrow> card_state \<Rightarrow> card_state" where
  "rebuild cardConfig s =
     (case createCard_priv cardConfig s of
        (Inl err, s1) \<Rightarrow> s1
      | (Inr newEl, s1) \<Rightarrow>
          computeAndSetVisible
            (s1\<lparr>cardCache := (cardCache s1)(cardConfigKey cardConfig \<mapsto> newEl),
                card_elem := Some newEl\<rparr>))"

text \<open>\<open>getCardSize\<close>.\<close>

definition getCardSize :: "card_state \<Rightarrow> int" where
  "getCardSize s =
     (if \<not> truthy (computeVisibility s) then 0
      else (case card_elem s of
              None \<Rightarrow> 1
            | Some el \<Rightarrow>
                (case el_getCardSize el of
                   Returns n \<Rightarrow> n
                 | Throws \<Rightarrow> 1
                 | Absent \<Rightarrow> 1)))"

section \<open>Deferred callbacks\<close>

text \<open>
  Running one queued callback. The callback that creates the widget suspends at its first
  \<open>await\<close>, so whatever was queued behind it (the restore, for one) runs before the
  widget exists; its continuation is queued again and is run in one piece, since between
  its later suspension points it reads nothing another callback could have changed but
  the cache, which \<open>_createCard\<close> tests and updates without suspending. A rejection
  inside a callback ends that callback.
\<close>

fun run_task :: "task \<Rightarrow> card_state \<Rightarrow> card_state" where
  "run_task (CreateCardStart spec) s =
     (let s1 = ensureHelpers s in s1\<lparr>microtasks := microtasks s1 @ [CreateCardResume spec]\<rparr>)"
| "run_task (CreateCardResume spec) s =
     (case createCard spec s of
        (Inl err, s1) \<Rightarrow> s1
      | (Inr u, s1) \<Rightarrow> computeAndSetVisible s1)"
| "run_task (RestoreState c) s = restoreState c s"
| "run_task PersistState s = persistState s"
| "run_task (Rebuild spec) s = rebuild spec s"

definition run_microtask :: "card_state \<Rightarrow> card_state" where
  "run_microtask s =
     (case microtasks s of [] \<Rightarrow> s | t # ts \<Rightarrow> run_task t (s\<lparr>microtasks := ts\<rparr>))"

section \<open>Broadcast signals\<close>

text \<open>
  Modelled from the spec: \<open>const.ts\<close> is not among the sources. The spec names the three
  actions \<open>show\<close>, \<open>hide\<close> and \<open>toggle\<close>; the name of the payload's key inside
  \<open>detail\<close> (\<open>EVENT_LOVELACE_DOM_DETAIL\<close>) is nowhere given, and is the parameter \<open>dk\<close>
  of every function below that reads a payload.
\<close>

definition SHOW :: string where "SHOW = ''show''"
definition HIDE :: string where "HIDE = ''hide''"
definition TOGGLE :: string where "TOGGLE = ''toggle''"

text \<open>\<open>_handleLovelaceDomEvent\<close>.\<close>

definition handleLovelaceDomEvent :: "event \<Rightarrow> card_state \<Rightarrow> card_state" where
  "handleLovelaceDomEvent e s =
     (let s1 = s\<lparr>lastEvent := Some e\<rparr>
      in if pendingEvent s1 then s1
         else s1\<lparr>pendingEvent := True, animationFrames := Suc (animationFrames s1)\<rparr>)"

text \<open>
  The test that guards the decoding; \<open>None\<close> is a TypeError of \<open>in\<close>. When the entry
  under the key is an inherited member, \<open>"ids" in\<close> it is false.
\<close>

definition payload_guard :: "string \<Rightarrow> jsval \<Rightarrow> bool option" where
  "payload_guard dk detail =
     (case js_in dk detail of
        None \<Rightarrow> None
      | Some False \<Rightarrow> Some False
      | Some True \<Rightarrow>
          (case js_get detail dk of
             Builtin n \<Rightarrow> Some False
           | Data d \<Rightarrow>
               (case js_in ''ids'' d of
                  None \<Rightarrow> None
                | Some False \<Rightarrow> Some False
                | Some True \<Rightarrow>
                    (case js_in ''action'' d of
                       None \<Rightarrow> None
                     | Some False \<Rightarrow> Some False
                     | Some True \<Rightarrow>
                         Some (case js_get d ''ids'' of
                                 Data (JArr xs) \<Rightarrow> True | _ \<Rightarrow> False)))))"

text \<open>
  \<open>ids.find((id) => typeof id === "object" && this.config && this.config.id in id)\<close>:
  \<open>None\<close> is the TypeError of \<open>in\<close> on null, \<open>Some None\<close> is undefined (nothing found).
\<close>

fun find_id :: "config option \<Rightarrow> jsval list \<Rightarrow> jsval option option" where
  "find_id cfg [] = Some None"
| "find_id cfg (x # xs) =
     (if typeof_object x
      then (case cfg of
              None \<Rightarrow> find_id cfg xs
            | Some c \<Rightarrow>
                (case js_in (id_cfg c) x of
                   None \<Rightarrow> None
                 | Some True \<Rightarrow> Some (Some x)
                 | Some False \<Rightarrow> find_id cfg xs))
      else find_id cfg xs)"

text \<open>\<open>ids.includes(this.config?.id)\<close>.\<close>

definition includes_id :: "config option \<Rightarrow> jsval list \<Rightarrow> bool" where
  "includes_id cfg ids =
     (case cfg of None \<Rightarrow> JUndefined \<in> set ids | Some c \<Rightarrow> JStr (id_cfg c) \<in> set ids)"

text \<open>The value of \<open>action\<close> when the switch is reached; \<open>None\<close> when an exception came first.\<close>

definition effective_action :: "config option \<Rightarrow> jsval list \<Rightarrow> member \<Rightarrow> member option" where
  "effective_action cfg ids action =
     (if action = Data (JStr ''set'')
      then (case find_id cfg ids of
              None \<Rightarrow> None
            | Some None \<Rightarrow> Some action
            | Some (Some found) \<Rightarrow>
                (case cfg of None \<Rightarrow> None | Some c \<Rightarrow> Some (js_get found (id_cfg c))))
      else Some (if includes_id cfg ids then action else Data (JStr ''none'')))"

definition decode_action :: "string \<Rightarrow> config option \<Rightarrow> event \<Rightarrow> member option" where
  "decode_action dk cfg e =
     (case e of Event detail \<Rightarrow>
        (case payload_guard dk detail of
           None \<Rightarrow> None
         | Some False \<Rightarrow> None
         | Some True \<Rightarrow>
             (case js_get detail dk of
                Builtin n \<Rightarrow> None
              | Data d \<Rightarrow>
                  (case js_get d ''ids'' of
                     Data (JArr ids) \<Rightarrow> effective_action cfg ids (js_get d ''action'')
                   | _ \<Rightarrow> None))))"

text \<open>The switch over the effective action.\<close>

definition apply_action :: "member \<Rightarrow> bool \<Rightarrow> bool" where
  "apply_action action sh =
     (if action = Data (JStr SHOW) then True
      else if action = Data (JStr HIDE) then False
      else if action = Data (JStr TOGGLE) then \<not> sh
      else sh)"

text \<open>\<open>_processQueuedLovelaceEvent\<close>.\<close>

definition processQueuedLovelaceEvent :: "string \<Rightarrow> card_state \<Rightarrow> card_state" where
  "processQueuedLovelaceEvent dk s =
     (let s1 = s\<lparr>pendingEvent := False, lastEvent := None\<rparr>
      in case lastEvent s of
           None \<Rightarrow> s1
         | Some e \<Rightarrow>
             (case decode_action dk (config s1) e of
                None \<Rightarrow> s1
              | Some action \<Rightarrow>
                  computeAndSetVisible (s1\<lparr>show_flag := apply_action action (show_flag s1)\<rparr>)))"

text \<open>A frame boundary: the browser runs every frame callback requested so far.\<close>

definition animation_frame :: "string \<Rightarrow> card_state \<Rightarrow> card_state" where
  "animation_frame dk s =
     ((processQueuedLovelaceEvent dk) ^^ (animationFrames s)) (s\<lparr>animationFrames := 0\<rparr>)"

section \<open>Runs\<close>

text \<open>
  What can happen to an instance, one at a time (the event loop runs each callback to
  completion): a signal reaches the listener (the element is attached), a frame boundary
  passes, the next
  microtask runs, the host configures the card, the host sets \<open>preview\<close>, the rendering
  library reports changed properties, a widget asks to be rebuilt.
\<close>

datatype input =
    Signal event
  | Frame
  | Microtask
  | Configure "config option"
  | SetPreview bool
  | Updated "string list"
  | RebuildRequest widget_spec

fun step :: "string \<Rightarrow> input \<Rightarrow> card_state \<Rightarrow> card_state" where
  "step dk (Signal e) s = handleLovelaceDomEvent e s"
| "step dk Frame s = animation_frame dk s"
| "step dk Microtask s = run_microtask s"
| "step dk (Configure cfg) s = snd (setConfig cfg s)"
| "step dk (SetPreview b) s = s\<lparr>preview := b\<rparr>"
| "step dk (Updated changed) s = updated changed s"
| "step dk (RebuildRequest spec) s = s\<lparr>microtasks := microtasks s @ [Rebuild spec]\<rparr>"

definition run :: "string \<Rightarrow> input list \<Rightarrow> card_state \<Rightarrow> card_state" where
  "run dk ins s = fold (step dk) ins s"

section \<open>Vocabulary of the properties\<close>

text \<open>The setting \<open>hide_in_preview\<close> counts as on only when a configuration has it true.\<close>

definition hide_in_preview_on :: "card_state \<Rightarrow> bool" where
  "hide_in_preview_on s = (Option.bind (config s) hide_in_preview = Some True)"

definition is_error_indicator :: "card_state \<Rightarrow> bool" where
  "is_error_indicator s = (map_option localName (card_elem s) = Some ''hui-error-card'')"

text \<open>
  The coalescer's three fields, and what is to hold of them at all times: at most one
  frame callback is outstanding, the flag says whether one is, and the buffer is filled
  exactly while one is.
\<close>

definition coalescer :: "card_state \<Rightarrow> bool \<times> event option \<times> nat" where
  "coalescer s = (pendingEvent s, lastEvent s, animationFrames s)"

definition coalescer_inv :: "card_state \<Rightarrow> bool" where
  "coalescer_inv s =
     (animationFrames s \<le> 1 \<and> pendingEvent s = (animationFrames s = 1) \<and>
      (lastEvent s = None) = (\<not> pendingEvent s))"

definition quiescent :: "card_state \<Rightarrow> bool" where
  "quiescent s = (\<not> pendingEvent s \<and> lastEvent s = None \<and> animationFrames s = 0)"






text \<open>
  The fold of the specification: \<open>show\<close> gives true, \<open>hide\<close> gives false, \<open>toggle\<close>
  negates, anything else changes nothing. A run is given frame by frame: the signals
  that arrive within a frame, then its boundary. What is delivered is the last signal
  of each frame that has one.
\<close>

datatype signal = SigShow | SigHide | SigToggle

fun signal_name :: "signal \<Rightarrow> string" where
  "signal_name SigShow = ''show''"
| "signal_name SigHide = ''hide''"
| "signal_name SigToggle = ''toggle''"

fun spec_apply :: "bool \<Rightarrow> signal option \<Rightarrow> bool" where
  "spec_apply b (Some SigShow) = True"
| "spec_apply b (Some SigHide) = False"
| "spec_apply b (Some SigToggle) = (\<not> b)"
| "spec_apply b None = b"

definition signal_of :: "member option \<Rightarrow> signal option" where
  "signal_of a =
     (if a = Some (Data (JStr ''show'')) then Some SigShow
      else if a = Some (Data (JStr ''hide'')) then Some SigHide
      else if a = Some (Data (JStr ''toggle'')) then Some SigToggle
      else None)"

definition frames_inputs :: "event list list \<Rightarrow> input list" where
  "frames_inputs fs = concat (map (\<lambda>sigs. map Signal sigs @ [Frame]) fs)"

definition spec_delivered :: "event list list \<Rightarrow> event list" where
  "spec_delivered fs = map last (filter (\<lambda>sigs. sigs \<noteq> []) fs)"

text \<open>
  The same for a run in which other things happen between the signals: what is delivered
  of a run that starts with a given buffer. Only a signal fills the buffer and only a
  frame boundary empties it. The deferred callback that can change the show flag on its
  own is the restore, which only configuring queues.
\<close>

fun spec_delivered_of :: "event option \<Rightarrow> input list \<Rightarrow> event list" where
  "spec_delivered_of buf [] = []"
| "spec_delivered_of buf (Signal e # ins) = spec_delivered_of (Some e) ins"
| "spec_delivered_of buf (Frame # ins) =
     (case buf of None \<Rightarrow> [] | Some e \<Rightarrow> [e]) @ spec_delivered_of None ins"
| "spec_delivered_of buf (i # ins) = spec_delivered_of buf ins"

fun is_configure :: "input \<Rightarrow> bool" where
  "is_configure (Configure cfg) = True"
| "is_configure i = False"

fun is_restore :: "task \<Rightarrow> bool" where
  "is_restore (RestoreState c) = True"
| "is_restore t = False"

definition no_restore :: "card_state \<Rightarrow> bool" where
  "no_restore s = (\<not> list_ex is_restore (microtasks s))"

text \<open>What nothing but configuring, a delivery or a restore changes.\<close>

definition standing :: "card_state \<Rightarrow> config option \<times> bool \<times> bool" where
  "standing s = (config s, show_flag s, list_ex is_restore (microtasks s))"

section \<open>Example inputs\<close>

text \<open>
  A widget spec and configurations, a payload in the shape the channel carries, fresh
  instances (one over an empty store, one over a store that holds \<open>true\<close> for the id
  \<open>a\<close>) and a widget that reports size 5.
\<close>

definition ex_spec :: widget_spec where
  "ex_spec = \<lparr>JSON_stringify = Some ''{type:x}'', type_field = Some ''x'',
              String_of = ''[object Object]''\<rparr>"

definition ex_config :: config where
  "ex_config = \<lparr>id_cfg = ''a'', default_cfg = ''hide'', card_cfg = Some ex_spec,
                persist_state = Some True, hide_in_preview = None\<rparr>"


definition payload :: "string \<Rightarrow> jsval list \<Rightarrow> string \<Rightarrow> event" where
  "payload dk ids action =
     Event (JObj [(dk, JObj [(''ids'', JArr ids), (''action'', JStr action)])])"

definition ex_fresh :: card_state where
  "ex_fresh = new_card NoLoader Map.empty False False"

definition ex_stored :: card_state where
  "ex_stored = new_card NoLoader [''local_conditional_card_state_a'' \<mapsto> ''true''] False False"

definition ex_widget :: element where
  "ex_widget = \<lparr>elemId = 0, localName = ''hui-entities-card'', el_getCardSize = Returns 5\<rparr>"




text \<open>A name for the payload's key, and specs whose serialisation throws.\<close>

definition ex_key :: string where
  "ex_key = ''local_conditional_card''"


text \<open>The instance configured with \<open>ex_config\<close>, and signals for the id \<open>a\<close>.\<close>

definition ex_configured :: card_state where
  "ex_configured = snd (setConfig (Some ex_config) ex_fresh)"

definition ex_toggle :: event where
  "ex_toggle = payload ex_key [JStr ''a''] ''toggle''"

definition ex_show :: event where
  "ex_show = payload ex_key [JStr ''a''] ''show''"




definition ex_set_event :: event where
  "ex_set_event = payload ex_key [JStr ''b'', JObj [(''c'', JStr ''hide'')],
      JObj [(''a'', JStr ''toggle''), (''b'', JStr ''hide'')]] ''set''"

section \<open>Reconciliation: what it keeps and what it does\<close>

lemma computeAndSetVisible_keeps:
  "show_flag (computeAndSetVisible s) = show_flag s"
  "config (computeAndSetVisible s) = config s"
  "preview (computeAndSetVisible s) = preview s"
  "pendingEvent (computeAndSetVisible s) = pendingEvent s"
  "lastEvent (computeAndSetVisible s) = lastEvent s"
  "animationFrames (computeAndSetVisible s) = animationFrames s"
  "cardCache (computeAndSetVisible s) = cardCache s"
  "card_elem (computeAndSetVisible s) = card_elem s"
  "cardHelpers (computeAndSetVisible s) = cardHelpers s"
  "localStorage (computeAndSetVisible s) = localStorage s"
  "setItemCalls (computeAndSetVisible s) = setItemCalls s"
  "nextElem (computeAndSetVisible s) = nextElem s"
  "visible (computeAndSetVisible s) = computeVisibility s"
  by (simp_all add: computeAndSetVisible_def Let_def)

lemma computeAndSetVisible_same:
  "computeVisibility s = visible s \<Longrightarrow> computeAndSetVisible s = s"
  by (simp add: computeAndSetVisible_def Let_def)

lemma computeAndSetVisible_differs:
  "computeVisibility s \<noteq> visible s \<Longrightarrow>
     dispatched (computeAndSetVisible s) = dispatched s @ [''card-visibility-changed''] \<and>
     microtasks (computeAndSetVisible s) =
       microtasks s @ (if Option.bind (config s) persist_state = Some True then [PersistState] else [])"
  by (auto simp: computeAndSetVisible_def Let_def split: option.splits)

lemma computeVisibility_show_upd:
  "computeVisibility (s\<lparr>show_flag := b\<rparr>) =
     (if preview s \<and> \<not> hide_in_preview_on s then JBool True
      else if b then JBool True
      else (case card_elem s of None \<Rightarrow> JUndefined
            | Some el \<Rightarrow> JBool (localName el = ''hui-error-card'')))"
  by (auto simp: computeVisibility_def hide_in_preview_on_def split: option.splits)

lemma computeAndSetVisible_with_widget:
  assumes "card_elem s \<noteq> None" and "visible s = JBool b"
  shows "(truthy (computeVisibility s) = b \<longrightarrow> computeAndSetVisible s = s) \<and>
         (truthy (computeVisibility s) \<noteq> b \<longrightarrow>
            dispatched (computeAndSetVisible s) = dispatched s @ [''card-visibility-changed''] \<and>
            microtasks (computeAndSetVisible s) =
              microtasks s @
                (if Option.bind (config s) persist_state = Some True then [PersistState] else []))"
proof -
  from assms(1) have "\<exists>v. computeVisibility s = JBool v"
    by (auto simp: computeVisibility_def split: option.splits)
  then obtain v where v: "computeVisibility s = JBool v" ..
  show ?thesis
  proof (cases "v = b")
    case True
    with v assms(2) show ?thesis by (simp add: computeAndSetVisible_same)
  next
    case False
    with v assms(2) have "computeVisibility s \<noteq> visible s" by simp
    from computeAndSetVisible_differs [OF this] v False show ?thesis by simp
  qed
qed

lemma persistState_writes_show_flag:
  "config s = Some c \<Longrightarrow>
     setItemCalls (persistState s) = setItemCalls s @ [(getStorageKey c, bool_text (show_flag s))]"
  by (simp add: persistState_def Let_def)

section \<open>The cache: one request\<close>

lemma ensureHelpers_keeps:
  "cardCache (ensureHelpers s) = cardCache s"
  "nextElem (ensureHelpers s) = nextElem s"
  "pendingEvent (ensureHelpers s) = pendingEvent s"
  "lastEvent (ensureHelpers s) = lastEvent s"
  "animationFrames (ensureHelpers s) = animationFrames s"
  "show_flag (ensureHelpers s) = show_flag s"
  "config (ensureHelpers s) = config s"
  "microtasks (ensureHelpers s) = microtasks s"
  by (simp_all add: ensureHelpers_def split: option.splits)

lemma ensureHelpers_idem: "ensureHelpers (ensureHelpers s) = ensureHelpers s"
  by (simp add: ensureHelpers_def split: option.splits loader.splits)







lemma createCard_priv_keeps:
  "pendingEvent (snd (createCard_priv a s)) = pendingEvent s"
  "lastEvent (snd (createCard_priv a s)) = lastEvent s"
  "animationFrames (snd (createCard_priv a s)) = animationFrames s"
  "show_flag (snd (createCard_priv a s)) = show_flag s"
  "config (snd (createCard_priv a s)) = config s"
  "microtasks (snd (createCard_priv a s)) = microtasks s"
  by (simp_all add: createCard_priv_def Let_def ensureHelpers_keeps split: option.splits)

section \<open>Decoding a well-formed payload\<close>











lemma decode_targeted:
  assumes "JStr (id_cfg c) \<in> set ids" and "action \<noteq> ''set''"
  shows "decode_action dk (Some c) (payload dk ids action) = Some (Data (JStr action))"
  using assms
  by (simp add: decode_action_def payload_def payload_guard_def js_in_def js_get_def
      effective_action_def includes_id_def)

section \<open>The coalescer, step by step\<close>

lemma coalescer_inv_cong: "coalescer s' = coalescer s \<Longrightarrow> coalescer_inv s' = coalescer_inv s"
  by (simp add: coalescer_def coalescer_inv_def)

lemma coalescer_computeAndSetVisible: "coalescer (computeAndSetVisible s) = coalescer s"
  by (simp add: coalescer_def computeAndSetVisible_keeps)

lemma coalescer_restoreState: "coalescer (restoreState c s) = coalescer s"
  by (simp add: restoreState_def Let_def coalescer_computeAndSetVisible split: option.splits)
    (simp add: coalescer_def)

lemma coalescer_persistState: "coalescer (persistState s) = coalescer s"
  by (simp add: persistState_def Let_def coalescer_def split: option.splits)

lemma coalescer_ensureHelpers: "coalescer (ensureHelpers s) = coalescer s"
  by (simp add: coalescer_def ensureHelpers_keeps)

lemma coalescer_createCard_priv: "coalescer (snd (createCard_priv a s)) = coalescer s"
  by (simp add: coalescer_def createCard_priv_keeps)

lemma coalescer_field_upd:
  "coalescer (s\<lparr>microtasks := ts\<rparr>) = coalescer s"
  "coalescer (s\<lparr>card_elem := el\<rparr>) = coalescer s"
  "coalescer (s\<lparr>cardCache := cc\<rparr>) = coalescer s"
  "coalescer (s\<lparr>preview := b\<rparr>) = coalescer s"
  by (simp_all add: coalescer_def)

lemma coalescer_createCard: "coalescer (snd (createCard a s)) = coalescer s"
  using coalescer_createCard_priv [of a s]
  by (auto simp: createCard_def coalescer_computeAndSetVisible coalescer_field_upd
      split: prod.splits sum.splits)

lemma coalescer_rebuild: "coalescer (rebuild a s) = coalescer s"
  using coalescer_createCard_priv [of a s]
  by (auto simp: rebuild_def coalescer_computeAndSetVisible coalescer_field_upd
      split: prod.splits sum.splits)

lemma coalescer_run_task: "coalescer (run_task t s) = coalescer s"
proof (cases t)
  case (CreateCardStart spec)
  then show ?thesis
    by (simp add: Let_def coalescer_field_upd coalescer_ensureHelpers)
next
  case (CreateCardResume spec)
  then show ?thesis
    using coalescer_createCard [of spec s]
    by (auto simp: coalescer_computeAndSetVisible split: prod.splits sum.splits)
qed (simp_all add: coalescer_restoreState coalescer_persistState coalescer_rebuild)

lemma coalescer_run_microtask: "coalescer (run_microtask s) = coalescer s"
  by (simp add: run_microtask_def coalescer_run_task coalescer_field_upd split: list.splits)

lemma coalescer_setConfig: "coalescer (snd (setConfig cfg s)) = coalescer s"
  by (simp add: setConfig_def Let_def coalescer_def split: option.splits)

lemma coalescer_updated: "coalescer (updated changed s) = coalescer s"
  by (simp add: updated_def coalescer_computeAndSetVisible)

lemma handle_fields:
  "lastEvent (handleLovelaceDomEvent e s) = Some e"
  "pendingEvent (handleLovelaceDomEvent e s)"
  "animationFrames (handleLovelaceDomEvent e s) =
     (if pendingEvent s then animationFrames s else Suc (animationFrames s))"
  "config (handleLovelaceDomEvent e s) = config s"
  "show_flag (handleLovelaceDomEvent e s) = show_flag s"
  "microtasks (handleLovelaceDomEvent e s) = microtasks s"
  by (simp_all add: handleLovelaceDomEvent_def Let_def)

lemma process_fields:
  "lastEvent (processQueuedLovelaceEvent dk s) = None"
  "\<not> pendingEvent (processQueuedLovelaceEvent dk s)"
  "animationFrames (processQueuedLovelaceEvent dk s) = animationFrames s"
  "config (processQueuedLovelaceEvent dk s) = config s"
  "show_flag (processQueuedLovelaceEvent dk s) =
     (case lastEvent s of
        None \<Rightarrow> show_flag s
      | Some e \<Rightarrow> (case decode_action dk (config s) e of
                    None \<Rightarrow> show_flag s
                  | Some a \<Rightarrow> apply_action a (show_flag s)))"
  by (simp_all add: processQueuedLovelaceEvent_def Let_def computeAndSetVisible_keeps
      split: option.splits)

lemma frame_idle:
  "animationFrames s = 0 \<Longrightarrow> animation_frame dk s = s"
  by (simp add: animation_frame_def)

lemma frame_once:
  "animationFrames s = 1 \<Longrightarrow>
     animation_frame dk s = processQueuedLovelaceEvent dk (s\<lparr>animationFrames := 0\<rparr>)"
  by (simp add: animation_frame_def)

lemma coalescer_inv_handle: "coalescer_inv s \<Longrightarrow> coalescer_inv (handleLovelaceDomEvent e s)"
  by (auto simp: coalescer_inv_def handle_fields)

lemma coalescer_inv_frame: "coalescer_inv s \<Longrightarrow> coalescer_inv (animation_frame dk s)"
proof (cases "animationFrames s = 0")
  case True
  assume "coalescer_inv s"
  with True show ?thesis by (simp add: frame_idle)
next
  case False
  assume "coalescer_inv s"
  with False have "animationFrames s = 1" by (simp add: coalescer_inv_def)
  then show ?thesis by (simp add: frame_once coalescer_inv_def process_fields)
qed

lemma coalescer_inv_step: "coalescer_inv s \<Longrightarrow> coalescer_inv (step dk i s)"
proof (cases i)
  case (Signal e)
  assume "coalescer_inv s"
  with Signal show ?thesis by (simp add: coalescer_inv_handle)
next
  case Frame
  assume "coalescer_inv s"
  with Frame show ?thesis by (simp add: coalescer_inv_frame)
next
  case Microtask
  assume "coalescer_inv s"
  with Microtask show ?thesis
    by (simp add: coalescer_inv_cong [OF coalescer_run_microtask])
next
  case (Configure cfg)
  assume "coalescer_inv s"
  with Configure show ?thesis
    by (simp add: coalescer_inv_cong [OF coalescer_setConfig])
next
  case (SetPreview b)
  assume "coalescer_inv s"
  with SetPreview show ?thesis by (simp add: coalescer_inv_def)
next
  case (Updated changed)
  assume "coalescer_inv s"
  with Updated show ?thesis
    by (simp add: coalescer_inv_cong [OF coalescer_updated])
next
  case (RebuildRequest spec)
  assume "coalescer_inv s"
  with RebuildRequest show ?thesis by (simp add: coalescer_inv_def)
qed

lemma coalescer_inv_run: "coalescer_inv s \<Longrightarrow> coalescer_inv (run dk ins s)"
  unfolding run_def
  by (induction ins arbitrary: s) (simp_all add: coalescer_inv_step)

lemma coalescer_inv_new: "coalescer_inv (new_card ld st g t)"
  by (simp add: coalescer_inv_def new_card_def)

section \<open>What leaves the show flag alone\<close>

lemma standing_computeAndSetVisible: "standing (computeAndSetVisible s) = standing s"
  by (simp add: standing_def computeAndSetVisible_def Let_def)

lemma standing_persistState: "standing (persistState s) = standing s"
  by (simp add: standing_def persistState_def Let_def split: option.splits)

lemma standing_ensureHelpers: "standing (ensureHelpers s) = standing s"
  by (simp add: standing_def ensureHelpers_keeps)

lemma standing_createCard_priv: "standing (snd (createCard_priv a s)) = standing s"
  by (simp add: standing_def createCard_priv_keeps)

lemma standing_field_upd:
  "standing (s\<lparr>card_elem := el\<rparr>) = standing s"
  "standing (s\<lparr>cardCache := cc\<rparr>) = standing s"
  "standing (s\<lparr>preview := b\<rparr>) = standing s"
  "standing (s\<lparr>animationFrames := n\<rparr>) = standing s"
  by (simp_all add: standing_def)

lemma standing_createCard: "standing (snd (createCard a s)) = standing s"
  using standing_createCard_priv [of a s]
  by (auto simp: createCard_def standing_computeAndSetVisible standing_field_upd
      split: prod.splits sum.splits)

lemma standing_rebuild: "standing (rebuild a s) = standing s"
  using standing_createCard_priv [of a s]
  by (auto simp: rebuild_def standing_computeAndSetVisible standing_field_upd
      split: prod.splits sum.splits)

lemma standing_run_task: "\<not> is_restore t \<Longrightarrow> standing (run_task t s) = standing s"
proof (cases t)
  case (CreateCardStart spec)
  then show ?thesis
    using standing_ensureHelpers [of s] by (simp add: Let_def standing_def)
next
  case (CreateCardResume spec)
  then show ?thesis
    using standing_createCard [of spec s]
    by (auto simp: standing_computeAndSetVisible split: prod.splits sum.splits)
next
  case (RestoreState c)
  assume "\<not> is_restore t"
  with RestoreState show ?thesis by simp
qed (simp_all add: standing_persistState standing_rebuild)

lemma standing_run_microtask: "no_restore s \<Longrightarrow> standing (run_microtask s) = standing s"
proof (cases "microtasks s")
  case Nil
  then show ?thesis by (simp add: run_microtask_def)
next
  case (Cons t ts)
  assume "no_restore s"
  with Cons have t: "\<not> is_restore t" and "standing (s\<lparr>microtasks := ts\<rparr>) = standing s"
    by (simp_all add: no_restore_def standing_def)
  with Cons show ?thesis by (simp add: run_microtask_def standing_run_task)
qed

lemma standing_updated: "standing (updated changed s) = standing s"
  by (simp add: updated_def standing_computeAndSetVisible)

lemma standing_handle: "standing (handleLovelaceDomEvent e s) = standing s"
  by (simp add: standing_def handle_fields)

lemma no_restore_process:
  "no_restore (processQueuedLovelaceEvent dk s) = no_restore s"
proof -
  have "list_ex is_restore (microtasks (computeAndSetVisible s')) = list_ex is_restore (microtasks s')"
    for s'
    using standing_computeAndSetVisible [of s'] by (simp add: standing_def)
  then show ?thesis
    by (simp add: no_restore_def processQueuedLovelaceEvent_def Let_def split: option.splits)
qed

lemma frame_delivers:
  assumes "coalescer_inv s"
  shows "lastEvent (animation_frame dk s) = None \<and>
         config (animation_frame dk s) = config s \<and>
         no_restore (animation_frame dk s) = no_restore s \<and>
         show_flag (animation_frame dk s) =
           (case lastEvent s of
              None \<Rightarrow> show_flag s
            | Some e \<Rightarrow> (case decode_action dk (config s) e of
                          None \<Rightarrow> show_flag s
                        | Some a \<Rightarrow> apply_action a (show_flag s)))"
proof (cases "lastEvent s")
  case None
  with assms have "animationFrames s = 0" by (auto simp: coalescer_inv_def)
  with None show ?thesis by (simp add: frame_idle)
next
  case (Some e)
  with assms have "animationFrames s = 1" by (auto simp: coalescer_inv_def)
  then have "animation_frame dk s = processQueuedLovelaceEvent dk (s\<lparr>animationFrames := 0\<rparr>)"
    by (rule frame_once)
  moreover have "no_restore (s\<lparr>animationFrames := 0\<rparr>) = no_restore s"
    by (simp add: no_restore_def)
  ultimately show ?thesis
    using Some by (simp add: process_fields no_restore_process cong: option.case_cong)
qed

section \<open>Runs and what they deliver\<close>

lemma apply_action_spec:
  "apply_action a b = spec_apply b (signal_of (Some a))"
  by (simp add: apply_action_def signal_of_def SHOW_def HIDE_def TOGGLE_def)

lemma handle_idem:
  "handleLovelaceDomEvent e (handleLovelaceDomEvent e s) = handleLovelaceDomEvent e s"
  by (simp add: handleLovelaceDomEvent_def Let_def)

lemma handle_repeat:
  "((handleLovelaceDomEvent e) ^^ Suc n) s = handleLovelaceDomEvent e s"
  by (induction n) (simp_all add: handle_idem)

lemma step_standing:
  assumes "\<not> is_configure i" and "coalescer_inv s" and "no_restore s"
  shows "coalescer_inv (step dk i s) \<and> no_restore (step dk i s) \<and>
         config (step dk i s) = config s"
proof -
  have keep: "no_restore s' \<and> config s' = config s" if "standing s' = standing s" for s'
    using that assms(3) by (simp add: standing_def no_restore_def)
  have "no_restore (step dk i s) \<and> config (step dk i s) = config s"
  proof (cases i)
    case (Signal e)
    with keep [OF standing_handle] show ?thesis by simp
  next
    case Frame
    with frame_delivers [OF assms(2), of dk] assms(3) show ?thesis by simp
  next
    case Microtask
    with keep [OF standing_run_microtask [OF assms(3)]] show ?thesis by simp
  next
    case (Configure cfg)
    with assms(1) show ?thesis by simp
  next
    case (SetPreview b)
    with keep [OF standing_field_upd(3)] show ?thesis by simp
  next
    case (Updated changed)
    with keep [OF standing_updated] show ?thesis by simp
  next
    case (RebuildRequest spec)
    with assms(3) show ?thesis by (simp add: no_restore_def)
  qed
  with coalescer_inv_step [OF assms(2)] show ?thesis by simp
qed

lemma step_show_flag:
  assumes "\<not> is_configure i" and "coalescer_inv s" and "no_restore s"
  shows "show_flag (step dk i s) =
           foldl spec_apply (show_flag s)
             (map (\<lambda>e. signal_of (decode_action dk (config s) e))
                (spec_delivered_of (lastEvent s) [i]))"
proof -
  have keep: "show_flag s' = show_flag s" if "standing s' = standing s" for s'
    using that by (simp add: standing_def)
  show ?thesis
  proof (cases i)
    case (Signal e)
    then show ?thesis by (simp add: handle_fields)
  next
    case Frame
    with frame_delivers [OF assms(2), of dk] show ?thesis
      by (simp add: apply_action_spec signal_of_def split: option.splits)
  next
    case Microtask
    with keep [OF standing_run_microtask [OF assms(3)]] show ?thesis by simp
  next
    case (Configure cfg)
    with assms(1) show ?thesis by simp
  next
    case (SetPreview b)
    then show ?thesis by simp
  next
    case (Updated changed)
    with keep [OF standing_updated] show ?thesis by simp
  next
    case (RebuildRequest spec)
    then show ?thesis by simp
  qed
qed

lemma step_buffer:
  assumes "\<not> is_configure i" and "coalescer_inv s"
  shows "spec_delivered_of (lastEvent s) (i # ins) =
           spec_delivered_of (lastEvent s) [i] @ spec_delivered_of (lastEvent (step dk i s)) ins"
proof -
  have keep: "lastEvent s' = lastEvent s" if "coalescer s' = coalescer s" for s'
    using that by (simp add: coalescer_def)
  show ?thesis
  proof (cases i)
    case (Signal e)
    then show ?thesis by (simp add: handle_fields)
  next
    case Frame
    with frame_delivers [OF assms(2), of dk] show ?thesis by simp
  next
    case Microtask
    with keep [OF coalescer_run_microtask] show ?thesis by simp
  next
    case (Configure cfg)
    with assms(1) show ?thesis by simp
  next
    case (SetPreview b)
    then show ?thesis by simp
  next
    case (Updated changed)
    with keep [OF coalescer_updated] show ?thesis by simp
  next
    case (RebuildRequest spec)
    then show ?thesis by simp
  qed
qed

lemma run_fold:
  "coalescer_inv s \<Longrightarrow> no_restore s \<Longrightarrow> \<not> list_ex is_configure ins \<Longrightarrow>
     show_flag (fold (step dk) ins s) =
       foldl spec_apply (show_flag s)
         (map (\<lambda>e. signal_of (decode_action dk (config s) e))
            (spec_delivered_of (lastEvent s) ins))"
proof (induction ins arbitrary: s)
  case Nil
  show ?case by simp
next
  case (Cons i ins)
  from Cons.prems have i: "\<not> is_configure i" and rest: "\<not> list_ex is_configure ins"
    by simp_all
  from step_standing [OF i Cons.prems(1,2), of dk]
  have inv: "coalescer_inv (step dk i s)" and nr: "no_restore (step dk i s)"
    and c: "config (step dk i s) = config s" by simp_all
  from Cons.IH [OF inv nr rest] c step_show_flag [OF i Cons.prems(1,2), of dk]
    step_buffer [OF i Cons.prems(1), of ins dk]
  show ?case by simp
qed

lemma fold_signals:
  "sigs \<noteq> [] \<Longrightarrow>
     lastEvent (fold (step dk) (map Signal sigs) s) = Some (last sigs) \<and>
     pendingEvent (fold (step dk) (map Signal sigs) s) \<and>
     animationFrames (fold (step dk) (map Signal sigs) s) =
       (if pendingEvent s then animationFrames s else Suc (animationFrames s)) \<and>
     config (fold (step dk) (map Signal sigs) s) = config s \<and>
     show_flag (fold (step dk) (map Signal sigs) s) = show_flag s"
proof (induction sigs rule: rev_induct)
  case Nil
  then show ?case by simp
next
  case (snoc x xs)
  show ?case
  proof (cases "xs = []")
    case True
    then show ?thesis by (simp add: handle_fields)
  next
    case False
    with snoc.IH show ?thesis by (simp add: handle_fields)
  qed
qed

lemma one_frame:
  assumes "quiescent s"
  shows "quiescent (fold (step dk) (map Signal sigs @ [Frame]) s) \<and>
         config (fold (step dk) (map Signal sigs @ [Frame]) s) = config s \<and>
         show_flag (fold (step dk) (map Signal sigs @ [Frame]) s) =
           (if sigs = [] then show_flag s
            else spec_apply (show_flag s) (signal_of (decode_action dk (config s) (last sigs))))"
proof (cases "sigs = []")
  case True
  with assms show ?thesis by (simp add: quiescent_def frame_idle)
next
  case False
  let ?s1 = "fold (step dk) (map Signal sigs) s"
  from fold_signals [OF False, of dk s] assms
  have l: "lastEvent ?s1 = Some (last sigs)" and f: "animationFrames ?s1 = 1"
    and c: "config ?s1 = config s" and sh: "show_flag ?s1 = show_flag s"
    by (simp_all add: quiescent_def)
  from f have "animation_frame dk ?s1 = processQueuedLovelaceEvent dk (?s1\<lparr>animationFrames := 0\<rparr>)"
    by (rule frame_once)
  with l c sh False show ?thesis
    by (simp add: quiescent_def process_fields apply_action_spec signal_of_def
        split: option.splits)
qed

lemma frames_fold:
  "quiescent s \<Longrightarrow>
     quiescent (fold (step dk) (frames_inputs fs) s) \<and>
     config (fold (step dk) (frames_inputs fs) s) = config s \<and>
     show_flag (fold (step dk) (frames_inputs fs) s) =
       foldl spec_apply (show_flag s)
         (map (\<lambda>e. signal_of (decode_action dk (config s) e)) (spec_delivered fs))"
proof (induction fs arbitrary: s)
  case Nil
  then show ?case by (simp add: frames_inputs_def spec_delivered_def)
next
  case (Cons sigs fs)
  let ?s1 = "fold (step dk) (map Signal sigs @ [Frame]) s"
  from one_frame [OF Cons.prems, of dk sigs]
  have q: "quiescent ?s1" and c: "config ?s1 = config s"
    and sh: "show_flag ?s1 =
           (if sigs = [] then show_flag s
            else spec_apply (show_flag s) (signal_of (decode_action dk (config s) (last sigs))))"
    by simp_all
  have split: "fold (step dk) (frames_inputs (sigs # fs)) s = fold (step dk) (frames_inputs fs) ?s1"
    by (simp add: frames_inputs_def)
  from Cons.IH [OF q] c sh show ?case
    unfolding split by (simp add: spec_delivered_def)
qed

lemma delivered_one_each:
  "\<forall>sigs \<in> set fs. length sigs \<le> 1 \<Longrightarrow> spec_delivered fs = concat fs"
proof (induction fs)
  case Nil
  show ?case by (simp add: spec_delivered_def)
next
  case (Cons sigs fs)
  then have "spec_delivered fs = concat fs" by simp
  moreover from Cons.prems have "length sigs \<le> 1" by simp
  then have "sigs = [] \<or> (\<exists>x. sigs = [x])"
    by (cases sigs) auto
  ultimately show ?case by (auto simp: spec_delivered_def)
qed

lemma setConfig_no_restore:
  "persist_state c \<noteq> Some True \<Longrightarrow> no_restore (snd (setConfig (Some c) s)) = no_restore s"
  by (simp add: setConfig_def Let_def no_restore_def split: option.splits)

section \<open>The claims\<close>

text \<open>
  C1. The effective-visibility function returns true exactly when preview is on and
  hide_in_preview is off or unset, or the explicit show flag is on, or the current
  widget is the error indicator; so does its truth value. In particular preview without
  hide_in_preview gives true whatever the show flag is, and an error indicator gives
  true whatever else holds.
\<close>

theorem computeVisibility_true_iff:
  "((computeVisibility s = JBool True) =
      ((preview s \<and> \<not> hide_in_preview_on s) \<or> show_flag s \<or> is_error_indicator s)) \<and>
   (truthy (computeVisibility s) =
      ((preview s \<and> \<not> hide_in_preview_on s) \<or> show_flag s \<or> is_error_indicator s)) \<and>
   (preview s \<and> \<not> hide_in_preview_on s \<longrightarrow> computeVisibility s = JBool True) \<and>
   (is_error_indicator s \<longrightarrow> computeVisibility s = JBool True)"
  by (auto simp: computeVisibility_def hide_in_preview_on_def is_error_indicator_def
      split: option.splits)

theorem computeVisibility_true_iff_witness:
  "preview (ex_fresh\<lparr>show_flag := False, preview := True\<rparr>) \<and>
   \<not> hide_in_preview_on (ex_fresh\<lparr>show_flag := False, preview := True\<rparr>) \<and>
   \<not> show_flag (ex_fresh\<lparr>show_flag := False, preview := True\<rparr>) \<and>
   computeVisibility (ex_fresh\<lparr>show_flag := False, preview := True\<rparr>) = JBool True"
  using computeVisibility_true_iff [of "ex_fresh\<lparr>show_flag := False, preview := True\<rparr>"]
  by (simp add: ex_fresh_def new_card_def hide_in_preview_on_def)

text \<open>
  C2. Configuring sets the show flag from the default and, with persistence off, queues
  no restore; a payload with \<open>show\<close>, \<open>hide\<close> or \<open>toggle\<close> whose \<open>ids\<close> contain the
  instance's id decodes to that signal. Take any run in which the instance is not
  configured anew and no restore is queued, from a state that satisfies the coalescer's
  invariant (signals, frame boundaries, deferred callbacks, preview changes, updates
  and rebuild requests, in any order): the show flag at its end equals the left fold,
  over the specification's three cases, of the delivered signals, the last one buffered
  before each frame boundary, starting from the flag at the beginning of the run. The
  same holds of a run given frame by frame from a state with nothing pending. When no
  frame carries more than one signal, the delivered signals are all the signals.
  Sending a signal any number of times within one frame leaves the same state as
  sending it once.
\<close>

theorem show_flag_fold_of_delivered:
  "show_flag (snd (setConfig (Some c) s)) = (default_cfg c = ''show'') \<and>
   (persist_state c \<noteq> Some True \<longrightarrow>
      no_restore (snd (setConfig (Some c) s)) = no_restore s) \<and>
   (JStr (id_cfg c) \<in> set ids \<longrightarrow>
      signal_of (decode_action dk (Some c) (payload dk ids (signal_name sg))) = Some sg) \<and>
   (coalescer_inv s \<and> no_restore s \<and> \<not> list_ex is_configure ins \<longrightarrow>
      show_flag (run dk ins s) =
        foldl spec_apply (show_flag s)
          (map (\<lambda>e. signal_of (decode_action dk (config s) e))
             (spec_delivered_of (lastEvent s) ins))) \<and>
   (quiescent s \<longrightarrow>
      show_flag (run dk (frames_inputs fs) s) =
        foldl spec_apply (show_flag s)
          (map (\<lambda>e. signal_of (decode_action dk (config s) e)) (spec_delivered fs))) \<and>
   ((\<forall>sigs \<in> set fs. length sigs \<le> 1) \<longrightarrow> spec_delivered fs = concat fs) \<and>
   run dk (frames_inputs [replicate (Suc n) e]) s = run dk (frames_inputs [[e]]) s"
proof -
  have a: "show_flag (snd (setConfig (Some c) s)) = (default_cfg c = ''show'')"
    by (simp add: setConfig_def Let_def split: option.splits)
  have b: "signal_of (decode_action dk (Some c) (payload dk ids (signal_name sg))) = Some sg"
    if "JStr (id_cfg c) \<in> set ids"
    using that by (cases sg) (simp_all add: decode_targeted signal_of_def)
  have g: "show_flag (run dk ins s) =
        foldl spec_apply (show_flag s)
          (map (\<lambda>e. signal_of (decode_action dk (config s) e))
             (spec_delivered_of (lastEvent s) ins))"
    if "coalescer_inv s" and "no_restore s" and "\<not> list_ex is_configure ins"
    using run_fold [OF that] by (simp add: run_def)
  have d: "show_flag (run dk (frames_inputs fs) s) =
        foldl spec_apply (show_flag s)
          (map (\<lambda>e. signal_of (decode_action dk (config s) e)) (spec_delivered fs))"
    if "quiescent s"
    using frames_fold [OF that] by (simp add: run_def)
  have "step dk (Signal e) = handleLovelaceDomEvent e"
    by (rule ext) simp
  then have "fold (step dk) (map Signal (replicate (Suc n) e)) s = handleLovelaceDomEvent e s"
    using handle_repeat [where e = e and n = n and s = s]
    by (simp only: map_replicate fold_replicate)
  then have r: "run dk (frames_inputs [replicate (Suc n) e]) s = run dk (frames_inputs [[e]]) s"
    by (simp add: run_def frames_inputs_def)
  from a b g d r delivered_one_each [of fs] setConfig_no_restore [of c s] show ?thesis by blast
qed

theorem show_flag_fold_of_delivered_witness:
  "quiescent ex_configured \<and> \<not> show_flag ex_configured \<and>
   signal_of (decode_action ex_key (Some ex_config) ex_toggle) = Some SigToggle \<and>
   signal_of (decode_action ex_key (Some ex_config) ex_show) = Some SigShow \<and>
   spec_delivered [[ex_show, ex_toggle], [], [ex_toggle], [ex_toggle, ex_show]] =
     [ex_toggle, ex_toggle, ex_show] \<and>
   show_flag (run ex_key
     (frames_inputs [[ex_show, ex_toggle], [], [ex_toggle], [ex_toggle, ex_show]]) ex_configured) \<and>
   coalescer_inv (run ex_key [Configure (Some ex_config), Microtask, Microtask] ex_fresh) \<and>
   no_restore (run ex_key [Configure (Some ex_config), Microtask, Microtask] ex_fresh) \<and>
   show_flag (run ex_key [Signal ex_show, Microtask, Signal ex_toggle, Frame, Microtask]
     (run ex_key [Configure (Some ex_config), Microtask, Microtask] ex_fresh))"
proof -
  note inst = show_flag_fold_of_delivered [where dk = ex_key and c = ex_config
      and ids = "[JStr ''a'']" and s = ex_configured]
  have q: "quiescent ex_configured" and c: "config ex_configured = Some ex_config"
    and h: "\<not> show_flag ex_configured"
    by (simp_all add: quiescent_def ex_configured_def setConfig_def Let_def ex_config_def
        ex_fresh_def new_card_def)
  have t: "signal_of (decode_action ex_key (Some ex_config) ex_toggle) = Some SigToggle"
    using inst [of SigToggle] by (simp add: ex_toggle_def ex_config_def)
  have w: "signal_of (decode_action ex_key (Some ex_config) ex_show) = Some SigShow"
    using inst [of SigShow] by (simp add: ex_show_def ex_config_def)
  have d: "spec_delivered [[ex_show, ex_toggle], [], [ex_toggle], [ex_toggle, ex_show]] =
     [ex_toggle, ex_toggle, ex_show]"
    by (simp add: spec_delivered_def)
  from inst [of SigShow _ "[[ex_show, ex_toggle], [], [ex_toggle], [ex_toggle, ex_show]]"] q
  have "show_flag (run ex_key
     (frames_inputs [[ex_show, ex_toggle], [], [ex_toggle], [ex_toggle, ex_show]]) ex_configured) =
     foldl spec_apply (show_flag ex_configured)
       (map (\<lambda>e. signal_of (decode_action ex_key (config ex_configured) e))
          (spec_delivered [[ex_show, ex_toggle], [], [ex_toggle], [ex_toggle, ex_show]]))"
    by blast
  with h t w d c
  have f: "show_flag (run ex_key
     (frames_inputs [[ex_show, ex_toggle], [], [ex_toggle], [ex_toggle, ex_show]]) ex_configured)"
    by simp
  let ?s = "run ex_key [Configure (Some ex_config), Microtask, Microtask] ex_fresh"
  have s: "coalescer_inv ?s" "no_restore ?s" "lastEvent ?s = None" "\<not> show_flag ?s"
    "config ?s = Some ex_config"
    by (simp_all add: run_def setConfig_def Let_def run_microtask_def ensureHelpers_def
        restoreState_def getStorageKey_def coalescer_inv_def no_restore_def ex_config_def
        ex_fresh_def new_card_def)
  from show_flag_fold_of_delivered [where dk = ex_key and s = ?s
      and ins = "[Signal ex_show, Microtask, Signal ex_toggle, Frame, Microtask]"] s(1,2)
  have "show_flag (run ex_key [Signal ex_show, Microtask, Signal ex_toggle, Frame, Microtask] ?s) =
     foldl spec_apply (show_flag ?s)
       (map (\<lambda>e. signal_of (decode_action ex_key (config ?s) e))
          (spec_delivered_of (lastEvent ?s)
             [Signal ex_show, Microtask, Signal ex_toggle, Frame, Microtask]))"
    by simp
  with s(3,4,5) t
  have g: "show_flag (run ex_key [Signal ex_show, Microtask, Signal ex_toggle, Frame, Microtask] ?s)"
    by simp
  from q h t w d f s(1,2) g show ?thesis by simp
qed

text \<open>
  The claim as written (the fold runs over every signal of the sequence, from the
  configured default) fails for two \<open>toggle\<close> signals within one frame, on the instance
  configured with default \<open>hide\<close>: only the second is applied, so the flag ends true,
  where the fold over both gives false. It also fails in its starting point: over a
  store that holds \<open>true\<close>, the restore has replaced the default \<open>hide\<close> before any
  signal can be delivered.
\<close>

theorem toggle_burst_counterexample:
  "quiescent ex_configured \<and> show_flag ex_configured = (default_cfg ex_config = ''show'') \<and>
   signal_of (decode_action ex_key (config ex_configured) ex_toggle) = Some SigToggle \<and>
   show_flag (run ex_key (frames_inputs [[ex_toggle, ex_toggle]]) ex_configured) \<noteq>
     foldl spec_apply (show_flag ex_configured)
       (map (\<lambda>e. signal_of (decode_action ex_key (config ex_configured) e))
          [ex_toggle, ex_toggle]) \<and>
   show_flag (run ex_key [Configure (Some ex_config), Microtask, Microtask] ex_stored) \<noteq>
     (default_cfg ex_config = ''show'')"
  by (simp add: quiescent_def ex_configured_def setConfig_def Let_def ex_config_def ex_fresh_def
      new_card_def run_def frames_inputs_def handleLovelaceDomEvent_def animation_frame_def
      processQueuedLovelaceEvent_def decode_action_def payload_guard_def js_in_def js_get_def
      effective_action_def includes_id_def apply_action_def SHOW_def HIDE_def TOGGLE_def
      ex_toggle_def payload_def ex_key_def signal_of_def computeAndSetVisible_keeps
      run_microtask_def ensureHelpers_def restoreState_def getStorageKey_def ex_stored_def)

text \<open>
  C3. From construction on, whatever happens to the instance, at most one delivery is
  outstanding, the pending flag is set exactly when one is, and the buffer is filled
  exactly then. Every signal overwrites the buffer and requests a delivery only when
  none is pending. At a frame boundary with nothing pending nothing happens; with a
  buffered signal the processing runs exactly once, empties the buffer, clears the flag
  and applies the decoded action of that signal once.
\<close>

theorem coalescer_single_delivery:
  "coalescer_inv (run dk ins (new_card ld st g t)) \<and>
   lastEvent (handleLovelaceDomEvent e s) = Some e \<and>
   pendingEvent (handleLovelaceDomEvent e s) \<and>
   animationFrames (handleLovelaceDomEvent e s) =
     (if pendingEvent s then animationFrames s else Suc (animationFrames s)) \<and>
   (coalescer_inv s \<and> \<not> pendingEvent s \<longrightarrow> animation_frame dk s = s) \<and>
   (coalescer_inv s \<and> lastEvent s = Some e \<longrightarrow>
      animation_frame dk s = processQueuedLovelaceEvent dk (s\<lparr>animationFrames := 0\<rparr>) \<and>
      lastEvent (animation_frame dk s) = None \<and>
      \<not> pendingEvent (animation_frame dk s) \<and>
      animationFrames (animation_frame dk s) = 0 \<and>
      show_flag (animation_frame dk s) =
        (case decode_action dk (config s) e of
           None \<Rightarrow> show_flag s
         | Some a \<Rightarrow> apply_action a (show_flag s)))"
proof -
  have idle: "animation_frame dk s = s" if "coalescer_inv s" and "\<not> pendingEvent s"
    using that by (simp add: coalescer_inv_def frame_idle)
  have deliver: "animation_frame dk s = processQueuedLovelaceEvent dk (s\<lparr>animationFrames := 0\<rparr>) \<and>
      lastEvent (animation_frame dk s) = None \<and>
      \<not> pendingEvent (animation_frame dk s) \<and>
      animationFrames (animation_frame dk s) = 0 \<and>
      show_flag (animation_frame dk s) =
        (case decode_action dk (config s) e of
           None \<Rightarrow> show_flag s
         | Some a \<Rightarrow> apply_action a (show_flag s))"
    if inv: "coalescer_inv s" and buf: "lastEvent s = Some e"
  proof -
    from inv buf have "animationFrames s = 1" by (auto simp: coalescer_inv_def)
    then have "animation_frame dk s = processQueuedLovelaceEvent dk (s\<lparr>animationFrames := 0\<rparr>)"
      by (rule frame_once)
    with buf show ?thesis by (simp add: process_fields split: option.splits)
  qed
  have inv: "coalescer_inv (run dk ins (new_card ld st g t))"
    by (rule coalescer_inv_run [OF coalescer_inv_new])
  have sig: "lastEvent (handleLovelaceDomEvent e s) = Some e \<and>
      pendingEvent (handleLovelaceDomEvent e s) \<and>
      animationFrames (handleLovelaceDomEvent e s) =
        (if pendingEvent s then animationFrames s else Suc (animationFrames s))"
    by (simp add: handle_fields)
  from inv sig idle deliver show ?thesis by blast
qed

theorem coalescer_single_delivery_witness:
  "coalescer_inv (handleLovelaceDomEvent ex_toggle ex_configured) \<and>
   lastEvent (handleLovelaceDomEvent ex_toggle ex_configured) = Some ex_toggle \<and>
   animationFrames (handleLovelaceDomEvent ex_set_event
      (handleLovelaceDomEvent ex_toggle ex_configured)) = 1 \<and>
   animationFrames (animation_frame ex_key (handleLovelaceDomEvent ex_toggle ex_configured)) = 0"
proof -
  let ?s = "handleLovelaceDomEvent ex_toggle ex_configured"
  note inst = coalescer_single_delivery [where dk = ex_key and ld = NoLoader and st = Map.empty
      and g = False and t = False and ins = "[Configure (Some ex_config), Signal ex_toggle]"]
  have "run ex_key [Configure (Some ex_config), Signal ex_toggle] ex_fresh = ?s"
    by (simp add: run_def ex_configured_def)
  with inst [of ex_toggle ?s] have inv: "coalescer_inv ?s"
    by (simp add: ex_fresh_def)
  have buf: "lastEvent ?s = Some ex_toggle"
    using inst [of ex_toggle ex_configured] by simp
  from inst [of ex_toggle ?s] inv buf
  have fr: "animationFrames (animation_frame ex_key ?s) = 0" by blast
  have "pendingEvent ?s" using inst [of ex_toggle ex_configured] by simp
  with inst [of ex_set_event ?s] inv
  have "animationFrames (handleLovelaceDomEvent ex_set_event ?s) = 1"
    by (simp add: coalescer_inv_def)
  with inv buf fr show ?thesis by simp
qed







text \<open>
  C6. Configuring with persistence queues exactly one restore. When the store can be
  read and holds a text for the key, the restore leaves the show flag equal to the
  parsed text and calls no write itself. It queues one write of the show flag exactly
  when it assigned the flag (the parsed value differed), the reconciliation that follows
  changed the stored visible value, and the current configuration has persistence on;
  otherwise it queues nothing.
\<close>

theorem restoreState_effects:
  "(card_cfg c = Some spec \<longrightarrow>
      microtasks (snd (setConfig (Some c) s)) =
        microtasks s @ [CreateCardStart spec] @
          (if persist_state c = Some True then [RestoreState c] else [])) \<and>
   (\<not> getItemThrows s \<and> localStorage s (getStorageKey c) = Some v \<longrightarrow>
      show_flag (restoreState c s) = (v = ''true'') \<and>
      setItemCalls (restoreState c s) = setItemCalls s \<and>
      localStorage (restoreState c s) = localStorage s \<and>
      microtasks (restoreState c s) =
        microtasks s @
          (if (v = ''true'') \<noteq> show_flag s \<and>
              computeVisibility (s\<lparr>show_flag := (v = ''true'')\<rparr>) \<noteq> visible s \<and>
              Option.bind (config s) persist_state = Some True
           then [PersistState] else []))"
proof -
  have cfg: "card_cfg c = Some spec \<longrightarrow>
      microtasks (snd (setConfig (Some c) s)) =
        microtasks s @ [CreateCardStart spec] @
          (if persist_state c = Some True then [RestoreState c] else [])"
    by (simp add: setConfig_def Let_def)
  have load: "show_flag (restoreState c s) = (v = ''true'') \<and>
      setItemCalls (restoreState c s) = setItemCalls s \<and>
      localStorage (restoreState c s) = localStorage s \<and>
      microtasks (restoreState c s) =
        microtasks s @
          (if (v = ''true'') \<noteq> show_flag s \<and>
              computeVisibility (s\<lparr>show_flag := (v = ''true'')\<rparr>) \<noteq> visible s \<and>
              Option.bind (config s) persist_state = Some True
           then [PersistState] else [])"
    if ok: "\<not> getItemThrows s" and st: "localStorage s (getStorageKey c) = Some v"
  proof (cases "(v = ''true'') = show_flag s")
    case True
    with ok st show ?thesis by (simp add: restoreState_def Let_def)
  next
    case False
    let ?s1 = "s\<lparr>show_flag := (v = ''true'')\<rparr>"
    from False ok st have r: "restoreState c s = computeAndSetVisible ?s1"
      by (simp add: restoreState_def Let_def)
    show ?thesis
    proof (cases "computeVisibility ?s1 = visible s")
      case True
      then have "computeAndSetVisible ?s1 = ?s1"
        by (simp add: computeAndSetVisible_same)
      with r True False show ?thesis by simp
    next
      case diff: False
      then have "computeVisibility ?s1 \<noteq> visible ?s1" by simp
      from computeAndSetVisible_differs [OF this] r diff False show ?thesis
        by (simp add: computeAndSetVisible_keeps)
    qed
  qed
  from cfg load show ?thesis by blast
qed

theorem restoreState_effects_witness:
  "card_cfg ex_config = Some ex_spec \<and>
   microtasks (snd (setConfig (Some ex_config) ex_stored)) =
     [CreateCardStart ex_spec, RestoreState ex_config] \<and>
   show_flag (restoreState ex_config (snd (setConfig (Some ex_config) ex_stored))) \<and>
   microtasks (restoreState ex_config (snd (setConfig (Some ex_config) ex_stored))) =
     [CreateCardStart ex_spec, RestoreState ex_config, PersistState]"
  using restoreState_effects [of ex_config ex_spec ex_stored "''true''"]
    restoreState_effects [of ex_config ex_spec "snd (setConfig (Some ex_config) ex_stored)" "''true''"]
  by (simp add: ex_config_def ex_stored_def new_card_def setConfig_def Let_def getStorageKey_def
      computeVisibility_def)

text \<open>
  The claim as written (the load never leads to a write) fails on a fresh instance with
  default \<open>hide\<close> over a store that holds \<open>true\<close>: before the restore runs no write is
  queued, the restore queues one, and when the queue has drained \<open>setItem\<close> has been
  called once, with the value just read.
\<close>

theorem restoreState_write_counterexample:
  "PersistState \<notin> set (microtasks (run ex_key [Configure (Some ex_config), Microtask] ex_stored)) \<and>
   hd (microtasks (run ex_key [Configure (Some ex_config), Microtask] ex_stored)) =
     RestoreState ex_config \<and>
   PersistState \<in> set (microtasks
     (run ex_key [Configure (Some ex_config), Microtask, Microtask] ex_stored)) \<and>
   setItemCalls (run ex_key [Configure (Some ex_config), Microtask, Microtask] ex_stored) = [] \<and>
   setItemCalls
     (run ex_key [Configure (Some ex_config), Microtask, Microtask, Microtask, Microtask] ex_stored) =
     [(''local_conditional_card_state_a'', ''true'')]"
  by (simp add: run_def setConfig_def Let_def run_microtask_def ensureHelpers_def
      restoreState_def computeAndSetVisible_def computeVisibility_def getStorageKey_def
      createCard_def createCard_priv_def cardConfigKey_def persistState_def bool_text_def
      ex_config_def ex_stored_def ex_spec_def new_card_def)

text \<open>
  C7. A reconciliation with no widget yet. The instance is configured with default
  \<open>hide\<close> and persistence; its widget is still being created when a signal for another
  id is delivered. The stored value goes from \<open>false\<close> to \<open>undefined\<close>: the card was
  hidden and stays hidden, yet one notification is dispatched and one write is queued.
  (With a widget in place and a boolean stored, \<open>computeAndSetVisible_with_widget\<close>
  gives what the claim says, and \<open>persistState_writes_show_flag\<close> that the text written
  is the show flag's.)
\<close>

theorem reconcile_without_widget_notifies:
  "card_elem (run ex_key [Configure (Some ex_config), Microtask, Microtask,
       Signal (payload ex_key [JStr ''b''] ''show'')] ex_fresh) = None \<and>
   visible (run ex_key [Configure (Some ex_config), Microtask, Microtask,
       Signal (payload ex_key [JStr ''b''] ''show'')] ex_fresh) = JBool False \<and>
   visible (run ex_key [Configure (Some ex_config), Microtask, Microtask,
       Signal (payload ex_key [JStr ''b''] ''show''), Frame] ex_fresh) = JUndefined \<and>
   \<not> truthy (visible (run ex_key [Configure (Some ex_config), Microtask, Microtask,
       Signal (payload ex_key [JStr ''b''] ''show''), Frame] ex_fresh)) \<and>
   dispatched (run ex_key [Configure (Some ex_config), Microtask, Microtask,
       Signal (payload ex_key [JStr ''b''] ''show'')] ex_fresh) = [] \<and>
   dispatched (run ex_key [Configure (Some ex_config), Microtask, Microtask,
       Signal (payload ex_key [JStr ''b''] ''show''), Frame] ex_fresh) =
     [''card-visibility-changed''] \<and>
   PersistState \<in> set (microtasks (run ex_key [Configure (Some ex_config), Microtask, Microtask,
       Signal (payload ex_key [JStr ''b''] ''show''), Frame] ex_fresh))"
  by (simp add: run_def setConfig_def Let_def run_microtask_def ensureHelpers_def
      restoreState_def computeAndSetVisible_def computeVisibility_def getStorageKey_def
      handleLovelaceDomEvent_def animation_frame_def processQueuedLovelaceEvent_def
      decode_action_def payload_guard_def js_in_def js_get_def effective_action_def
      includes_id_def apply_action_def SHOW_def HIDE_def TOGGLE_def payload_def ex_key_def
      ex_config_def ex_fresh_def ex_spec_def new_card_def)



text \<open>
  C9. The reported size is 0 whenever the card is not effectively visible, whatever the
  widget would report. When it is visible: 1 without a widget, the widget's own answer
  when the widget has the capability, 1 when it lacks it, and 1 when the widget's
  answer is an exception.
\<close>

theorem getCardSize_contract:
  "(\<not> truthy (computeVisibility s) \<longrightarrow> getCardSize s = 0) \<and>
   (truthy (computeVisibility s) \<and> card_elem s = None \<longrightarrow> getCardSize s = 1) \<and>
   (truthy (computeVisibility s) \<and> card_elem s = Some el \<and> el_getCardSize el = Returns n
      \<longrightarrow> getCardSize s = n) \<and>
   (truthy (computeVisibility s) \<and> card_elem s = Some el \<and> el_getCardSize el = Absent
      \<longrightarrow> getCardSize s = 1) \<and>
   (truthy (computeVisibility s) \<and> card_elem s = Some el \<and> el_getCardSize el = Throws
      \<longrightarrow> getCardSize s = 1)"
  by (simp add: getCardSize_def)

theorem getCardSize_contract_witness:
  "\<not> truthy (computeVisibility (ex_fresh\<lparr>show_flag := False, card_elem := Some ex_widget\<rparr>)) \<and>
   getCardSize (ex_fresh\<lparr>show_flag := False, card_elem := Some ex_widget\<rparr>) = 0 \<and>
   truthy (computeVisibility (ex_fresh\<lparr>card_elem := Some ex_widget\<rparr>)) \<and>
   getCardSize (ex_fresh\<lparr>card_elem := Some ex_widget\<rparr>) = 5 \<and>
   truthy (computeVisibility ex_fresh) \<and> card_elem ex_fresh = None \<and> getCardSize ex_fresh = 1"
  using getCardSize_contract [of "ex_fresh\<lparr>show_flag := False, card_elem := Some ex_widget\<rparr>"]
    getCardSize_contract [of "ex_fresh\<lparr>card_elem := Some ex_widget\<rparr>" ex_widget 5]
    getCardSize_contract [of ex_fresh]
  by (simp add: ex_fresh_def new_card_def ex_widget_def computeVisibility_def)

text \<open>
  C10. When the store can be read and holds a text for the instance's key, the show
  flag after the restore is true exactly when that text is \<open>true\<close>; every other text
  restores false. When the parsed value equals the current flag the restore changes
  nothing at all; otherwise it assigns the flag and reconciles.
\<close>

theorem restoreState_parse:
  assumes "\<not> getItemThrows s" and "localStorage s (getStorageKey c) = Some v"
  shows "show_flag (restoreState c s) = (v = ''true'') \<and>
         (v \<noteq> ''true'' \<longrightarrow> \<not> show_flag (restoreState c s)) \<and>
         ((v = ''true'') = show_flag s \<longrightarrow> restoreState c s = s) \<and>
         ((v = ''true'') \<noteq> show_flag s \<longrightarrow>
            restoreState c s = computeAndSetVisible (s\<lparr>show_flag := (v = ''true'')\<rparr>))"
  using assms by (auto simp: restoreState_def Let_def computeAndSetVisible_keeps)

theorem restoreState_parse_witness:
  "\<not> getItemThrows (ex_fresh\<lparr>localStorage := [getStorageKey ex_config \<mapsto> ''TRUE'']\<rparr>) \<and>
   show_flag (ex_fresh\<lparr>localStorage := [getStorageKey ex_config \<mapsto> ''TRUE'']\<rparr>) \<and>
   \<not> show_flag (restoreState ex_config
        (ex_fresh\<lparr>localStorage := [getStorageKey ex_config \<mapsto> ''TRUE'']\<rparr>))"
  using restoreState_parse [of "ex_fresh\<lparr>localStorage := [getStorageKey ex_config \<mapsto> ''TRUE'']\<rparr>"
      ex_config "''TRUE''"]
  by (simp add: ex_fresh_def new_card_def computeAndSetVisible_keeps)

end
